theory Spec2Isabelle
  imports Complex_Main "HOL-Library.Word" "HOL-Library.Log_Nat"
begin

unbundle bit_operations_syntax

section \<open>C floating-point arithmetic on finite values\<close>

text \<open>
  The decoder of \<^verbatim>\<open>take_reading\<close> multiplies an \<^verbatim>\<open>int\<close> by a \<^verbatim>\<open>double\<close> constant and stores
  the result in a \<^verbatim>\<open>float\<close> field.  Finite binary floating-point values are rational numbers,
  so a \<^verbatim>\<open>double\<close> or \<^verbatim>\<open>float\<close> value is modelled by the rational it denotes, and every
  operation is the exact operation followed by rounding to the nearest value with
  \<open>p\<close> significant bits, ties to even (\<open>p = 53\<close> for \<^verbatim>\<open>double\<close>, \<open>p = 24\<close> for \<^verbatim>\<open>float\<close>:
  IEEE 754 binary64 and binary32 in the default rounding mode, each operation evaluated in
  its own type and rounded on its own: no excess precision, and the multiplication and the
  subtraction of the temperature are not fused).  The exponent is not bounded: every value the decoder computes is zero or
  has a magnitude between \<open>2\<^sup>-\<^sup>4\<^sup>8\<close> and \<open>2\<^sup>8\<close>, far from overflow and from the subnormal range of
  either format.
\<close>

definition round_half_even :: "rat \<Rightarrow> int" where
  "round_half_even x =
     (let f = \<lfloor>x\<rfloor>; d = x - of_int f
      in if d < 1 / 2 then f
         else if 1 / 2 < d then f + 1
         else if even f then f else f + 1)"

text \<open>\<open>ilog2 x\<close> is the binary exponent of a positive rational: \<open>2\<^sup>e \<le> x < 2\<^sup>e\<^sup>+\<^sup>1\<close>.\<close>

definition ilog2 :: "rat \<Rightarrow> int" where
  "ilog2 x =
     (let (a, b) = quotient_of x; k = bitlen a - bitlen b
      in if 2 powi k \<le> x then k else k - 1)"

text \<open>\<open>fl p x\<close>: the value with \<open>p\<close> significant bits nearest to \<open>x\<close>.\<close>

definition fl :: "nat \<Rightarrow> rat \<Rightarrow> rat" where
  "fl p x =
     (if x = 0 then 0
      else let s = 2 powi (ilog2 \<bar>x\<bar> - (int p - 1))
           in of_int (round_half_even (x / s)) * s)"

definition to_double :: "rat \<Rightarrow> rat" where
  "to_double x = fl 53 x"

definition to_float :: "rat \<Rightarrow> rat" where
  "to_float x = fl 24 x"

text \<open>\<^verbatim>\<open>int\<close> to \<^verbatim>\<open>double\<close>: exact, every 32-bit integer has fewer than 53 significant bits.\<close>

definition double_of_int :: "int \<Rightarrow> rat" where
  "double_of_int n = of_int n"

definition double_mul :: "rat \<Rightarrow> rat \<Rightarrow> rat" where
  "double_mul a b = to_double (a * b)"

definition double_div :: "rat \<Rightarrow> rat \<Rightarrow> rat" where
  "double_div a b = to_double (a / b)"

definition double_sub :: "rat \<Rightarrow> rat \<Rightarrow> rat" where
  "double_sub a b = to_double (a - b)"

section \<open>The frame decoder (\<^verbatim>\<open>take_reading\<close>, the two assignments to \<^verbatim>\<open>r\<close>)\<close>

type_synonym byte = "8 word"

text \<open>\<^verbatim>\<open>struct reading { float humidity; float temperature; }\<close>\<close>

record reading =
  humidity :: rat
  temperature :: rat

text \<open>
  \<^verbatim>\<open>(data[0] & 0x3f) << 8 | data[1]\<close> and \<^verbatim>\<open>data[2] << 8 | (data[3] & 0xfc)\<close>: the
  \<^verbatim>\<open>unsigned char\<close> operands are promoted to \<^verbatim>\<open>int\<close>; the results stay below \<open>2\<^sup>1\<^sup>6\<close>, so
  the 32-bit \<^verbatim>\<open>int\<close> never wraps and the operations are those of the integers.
\<close>

definition humidity_raw :: "byte list \<Rightarrow> int" where
  "humidity_raw data = push_bit 8 (uint (data ! 0) AND 0x3f) OR uint (data ! 1)"

definition temperature_raw :: "byte list \<Rightarrow> int" where
  "temperature_raw data = push_bit 8 (uint (data ! 2)) OR (uint (data ! 3) AND 0xfc)"

text \<open>
  \<^verbatim>\<open>r->humidity = (...) * (100.0 / 0x3fff);\<close>
  \<^verbatim>\<open>r->temperature = (...) * (165.0 / 0xfffc) - 40;\<close>
  The array \<^verbatim>\<open>data\<close> holds four bytes when these lines run.
\<close>

definition decode :: "byte list \<Rightarrow> reading" where
  "decode data =
     \<lparr> humidity =
         to_float (double_mul (double_of_int (humidity_raw data))
                              (double_div 100 (double_of_int 0x3fff))),
       temperature =
         to_float (double_sub
                     (double_mul (double_of_int (temperature_raw data))
                                 (double_div 165 (double_of_int 0xfffc)))
                     (double_of_int 40)) \<rparr>"

subsection \<open>The decoder as the specification words it\<close>

text \<open>
  The specification's reference decoder: the humidity raw value is the low six bits of
  byte 0 followed by the eight bits of byte 1; the temperature raw value is byte 2
  followed by byte 3 with its two low bits cleared; humidity is the raw value times
  \<^verbatim>\<open>100.0 / 16383.0\<close>, temperature the raw value times \<^verbatim>\<open>165.0 / 65532.0\<close> minus
  \<^verbatim>\<open>40.0\<close>, both stored as \<^verbatim>\<open>float\<close>.
\<close>

definition spec_humidity_raw :: "byte \<Rightarrow> byte \<Rightarrow> int" where
  "spec_humidity_raw b0 b1 = (uint b0 mod 64) * 256 + uint b1"

definition spec_temperature_raw :: "byte \<Rightarrow> byte \<Rightarrow> int" where
  "spec_temperature_raw b2 b3 = uint b2 * 256 + (uint b3 div 4) * 4"

definition spec_decode :: "byte \<Rightarrow> byte \<Rightarrow> byte \<Rightarrow> byte \<Rightarrow> reading" where
  "spec_decode b0 b1 b2 b3 =
     \<lparr> humidity =
         to_float (double_mul (of_int (spec_humidity_raw b0 b1)) (double_div 100 16383)),
       temperature =
         to_float (double_sub
                     (double_mul (of_int (spec_temperature_raw b2 b3)) (double_div 165 65532))
                     40) \<rparr>"

text \<open>
  The temperature formula with the divisor \<^verbatim>\<open>16380.0\<close> that the specification's prose
  first writes down, on the same masked raw value.
\<close>

definition spec_temperature_16380 :: "byte \<Rightarrow> byte \<Rightarrow> rat" where
  "spec_temperature_16380 b2 b3 =
     to_float (double_sub
                 (double_mul (of_int (spec_temperature_raw b2 b3)) (double_div 165 16380))
                 40)"

text \<open>The exact linear maps that the floating-point computation approximates.\<close>

definition ideal_humidity :: "int \<Rightarrow> rat" where
  "ideal_humidity n = of_int n * 100 / 16383"

definition ideal_temperature :: "int \<Rightarrow> rat" where
  "ideal_temperature n = of_int n * 165 / 65532 - 40"

section \<open>The process, its failures and the calls it makes\<close>

text \<open>
  Every error path of the program prints a message and calls \<^verbatim>\<open>exit(1)\<close> on the spot.  A
  function that can take such a path returns \<open>Inl\<close> of the failure; the constructors
  are the program's own exits:
  \<^item> \<open>Die_errno msg\<close>: \<^verbatim>\<open>die_errno\<close>, the formatted message and \<^verbatim>\<open>strerror(errno)\<close> on
    standard error (the specification's \<^verbatim>\<open>IoError\<close>);
  \<^item> \<open>Die_alloc\<close>: \<^verbatim>\<open>die_alloc\<close>;
  \<^item> \<open>Bus_not_found name\<close>: \<^verbatim>\<open>could not find i2c bus\<close> (\<^verbatim>\<open>NotFound\<close>);
  \<^item> \<open>Short_read n\<close>: \<^verbatim>\<open>short read (n bytes)\<close> (\<^verbatim>\<open>ShortRead\<close>);
  \<^item> \<open>Bad_slave_address s\<close> and \<open>Slave_address_outside n\<close>: the two exits of
    \<^verbatim>\<open>parse_i2c_slave_address\<close> (\<^verbatim>\<open>ValidationError\<close>);
  \<^item> \<open>Usage\<close>: \<^verbatim>\<open>usage()\<close>, the usage text on standard output;
  \<^item> \<open>Both_b_and_d\<close>: \<^verbatim>\<open>both_b_and_d()\<close>, the conflict message on standard error, then
    \<^verbatim>\<open>usage()\<close>; \<open>No_b_or_d\<close>: the message that one of the two options must be present,
    then \<^verbatim>\<open>usage()\<close> (the three are the specification's \<^verbatim>\<open>UsageError\<close>).
\<close>

datatype fatal =
    Die_errno string
  | Die_alloc
  | Bus_not_found string
  | Short_read int
  | Bad_slave_address string
  | Slave_address_outside int
  | Usage
  | Both_b_and_d
  | No_b_or_d

text \<open>The argument of \<^verbatim>\<open>exit\<close> on each path.\<close>

fun exit_status :: "fatal \<Rightarrow> int" where
  "exit_status (Die_errno msg) = 1"
| "exit_status Die_alloc = 1"
| "exit_status (Bus_not_found name) = 1"
| "exit_status (Short_read n) = 1"
| "exit_status (Bad_slave_address s) = 1"
| "exit_status (Slave_address_outside n) = 1"
| "exit_status Usage = 1"
| "exit_status Both_b_and_d = 1"
| "exit_status No_b_or_d = 1"

text \<open>Whether the path goes through \<^verbatim>\<open>usage()\<close>, and whether it writes to standard error.\<close>

fun prints_usage :: "fatal \<Rightarrow> bool" where
  "prints_usage Usage = True"
| "prints_usage Both_b_and_d = True"
| "prints_usage No_b_or_d = True"
| "prints_usage e = False"

fun writes_stderr :: "fatal \<Rightarrow> bool" where
  "writes_stderr Usage = False"
| "writes_stderr e = True"

text \<open>
  The calls that reach outside the process, in the order they are made.  (\<^verbatim>\<open>close\<close>,
  \<^verbatim>\<open>closedir\<close> and \<^verbatim>\<open>free\<close> are left out; output is part of the outcome.)
\<close>

datatype open_mode = O_RDONLY | O_RDWR

datatype event =
    Ev_open string open_mode
  | Ev_opendir string
  | Ev_readdir string
  | Ev_read_file string nat
  | Ev_ioctl_slave int int
  | Ev_write int "byte list"
  | Ev_usleep nat
  | Ev_read int nat

text \<open>A computation: the calls made, and the failure or the result.\<close>

type_synonym 'a io = "event list \<times> (fatal + 'a)"

definition io_bind :: "'a io \<Rightarrow> ('a \<Rightarrow> 'b io) \<Rightarrow> 'b io" where
  "io_bind m f =
     (case m of
        (ev, Inl e) \<Rightarrow> (ev, Inl e)
      | (ev, Inr x) \<Rightarrow> (case f x of (ev', r) \<Rightarrow> (ev @ ev', r)))"

section \<open>The sensor transaction (\<^verbatim>\<open>take_reading\<close>)\<close>

text \<open>
  The device bound to the descriptor answers a \<^verbatim>\<open>write\<close> with an error or with the number
  of bytes it took, and a \<^verbatim>\<open>read\<close> with an error or with the bytes it delivers.  The system
  calls return \<open>-1\<close> on an error, and never transfer more than the count asked for.
\<close>

datatype 'a sys = Sys_error | Sys_ok 'a

record i2c_device =
  dev_write :: "byte list \<Rightarrow> nat sys"
  dev_read :: "nat \<Rightarrow> byte list sys"

definition sys_write :: "i2c_device \<Rightarrow> byte list \<Rightarrow> int" where
  "sys_write dev bs =
     (case dev_write dev bs of
        Sys_error \<Rightarrow> - 1
      | Sys_ok n \<Rightarrow> int (min n (length bs)))"

definition sys_read :: "i2c_device \<Rightarrow> nat \<Rightarrow> int \<times> byte list" where
  "sys_read dev n =
     (case dev_read dev n of
        Sys_error \<Rightarrow> (- 1, [])
      | Sys_ok bs \<Rightarrow> (int (length (take n bs)), take n bs))"

text \<open>
  \<^verbatim>\<open>take_reading(fd, r)\<close>.  The buffer \<^verbatim>\<open>data\<close> is decoded only after \<^verbatim>\<open>sz < 4\<close> has been
  ruled out, when the read has filled all four bytes of it.
\<close>

definition take_reading :: "i2c_device \<Rightarrow> int \<Rightarrow> reading io" where
  "take_reading dev fd =
     (let sz = sys_write dev [0]
      in if sz < 0 then ([Ev_write fd [0]], Inl (Die_errno ''writing to i2c''))
         else
           let (sz, data) = sys_read dev 4;
               calls = [Ev_write fd [0], Ev_usleep (60 * 1000), Ev_read fd 4]
           in if sz < 0 then (calls, Inl (Die_errno ''reading from i2c''))
              else if sz < 4 then (calls, Inl (Short_read sz))
              else (calls, Inr (decode data)))"

section \<open>The bus locator\<close>

text \<open>
  What the program sees of the file system: whether \<^verbatim>\<open>asprintf\<close> fails; for the path of a
  \<^verbatim>\<open>name\<close> file, whether it opens, whether it reads, and its content; the value
  \<^verbatim>\<open>open(path, O_RDWR)\<close> returns for a device node (negative on failure); the entries of
  \<^verbatim>\<open>/sys/class/i2c-dev\<close> in the order \<^verbatim>\<open>readdir\<close> gives them, and whether \<^verbatim>\<open>readdir\<close>
  fails after the last of them; whether the \<^verbatim>\<open>I2C_SLAVE\<close> request is rejected.  A
  \<^verbatim>\<open>read\<close> of a \<^verbatim>\<open>name\<close> file returns the first bytes of the content, as many as asked
  for or all of them.
\<close>

datatype name_file = Open_fails | Read_fails | Contents string

datatype dir_listing = Opendir_fails | Entries "string list" bool

record world =
  asprintf_fails :: bool
  name_files :: "string \<Rightarrow> name_file"
  dev_nodes :: "string \<Rightarrow> int"
  i2c_dev_dir :: dir_listing
  ioctl_fails :: bool

text \<open>
  \<^verbatim>\<open>name_file_matches(dir, subdir, want)\<close>: \<open>buf\<close> is what \<^verbatim>\<open>read(fd, buf, len + 2)\<close>
  stored, \<open>got\<close> its length; \<^verbatim>\<open>memcmp(want, buf, len) == 0\<close> compares the first \<open>len\<close>
  bytes.  The result \<^verbatim>\<open>res\<close>, 0 or 1 in C, is a truth value here.  (The message of the
  failed read is formatted from \<^verbatim>\<open>path\<close> after \<^verbatim>\<open>free(path)\<close>; the model writes the path
  it held.  \<^verbatim>\<open>malloc\<close> is taken to succeed.)
\<close>

definition name_file_matches :: "world \<Rightarrow> string \<Rightarrow> string \<Rightarrow> string \<Rightarrow> bool io" where
  "name_file_matches w dir subdir want =
     (let len = length want;
          path = dir @ ''/'' @ subdir @ ''/name''
      in if asprintf_fails w then ([], Inl Die_alloc)
         else
           case name_files w path of
             Open_fails \<Rightarrow> ([Ev_open path O_RDONLY], Inl (Die_errno (''opening '' @ path)))
           | Read_fails \<Rightarrow>
               ([Ev_open path O_RDONLY, Ev_read_file path (len + 2)],
                Inl (Die_errno (''reading '' @ path)))
           | Contents c \<Rightarrow>
               let buf = take (len + 2) c;
                   got = length buf
               in ([Ev_open path O_RDONLY, Ev_read_file path (len + 2)],
                   Inr (if got = len \<or> (got = len + 1 \<and> buf ! len = CHR 0x0A)
                        then take len want = take len buf
                        else False)))"

text \<open>\<^verbatim>\<open>open_i2c_dev(file)\<close>\<close>

definition open_i2c_dev :: "world \<Rightarrow> string \<Rightarrow> int io" where
  "open_i2c_dev w file =
     (let path = ''/dev/'' @ file
      in if asprintf_fails w then ([], Inl Die_alloc)
         else
           let fd = dev_nodes w path
           in if fd < 0 then ([Ev_open path O_RDWR], Inl (Die_errno (''opening '' @ path)))
              else ([Ev_open path O_RDWR], Inr fd))"

text \<open>
  \<^verbatim>\<open>open_i2c_bus(name)\<close>: the \<^verbatim>\<open>for (;;)\<close> loop over \<^verbatim>\<open>readdir\<close>, as a recursion over the
  entries still to come.
\<close>

definition i2c_dev_path :: string where
  "i2c_dev_path = ''/sys/class/i2c-dev''"

fun scan_entries :: "world \<Rightarrow> string \<Rightarrow> string list \<Rightarrow> bool \<Rightarrow> int io" where
  "scan_entries w name [] fails =
     ([Ev_readdir i2c_dev_path],
      if fails then Inl (Die_errno (''reading directory '' @ i2c_dev_path))
      else Inl (Bus_not_found name))"
| "scan_entries w name (d # ds) fails =
     io_bind ([Ev_readdir i2c_dev_path], Inr ())
       (\<lambda>_. if (case d of [] \<Rightarrow> False | c # _ \<Rightarrow> c = CHR ''.'')
            then scan_entries w name ds fails
            else io_bind (name_file_matches w i2c_dev_path d name)
                   (\<lambda>res. if res then open_i2c_dev w d
                           else scan_entries w name ds fails))"

definition open_i2c_bus :: "world \<Rightarrow> string \<Rightarrow> int io" where
  "open_i2c_bus w name =
     (case i2c_dev_dir w of
        Opendir_fails \<Rightarrow>
          ([Ev_opendir i2c_dev_path], Inl (Die_errno (''opening directory '' @ i2c_dev_path)))
      | Entries ds fails \<Rightarrow>
          io_bind ([Ev_opendir i2c_dev_path], Inr ()) (\<lambda>_. scan_entries w name ds fails))"

section \<open>Parsing the slave address\<close>

text \<open>
  \<^verbatim>\<open>strtol(s, &endptr, base)\<close> of the C library, in the C locale: white space is skipped,
  a sign is optional; with base 0 a \<^verbatim>\<open>0x\<close> or \<^verbatim>\<open>0X\<close> before a hexadecimal digit selects base
  16, any other leading \<^verbatim>\<open>0\<close> base 8, anything else base 10; the longest run of digits of
  the base is converted, and a value outside \<^verbatim>\<open>long\<close> is clamped.  The result is the value
  and the offset of \<^verbatim>\<open>endptr\<close> from \<^verbatim>\<open>s\<close>, which is 0 when there is no digit to convert.
  \<^verbatim>\<open>long\<close> has 64 bits here; with 32 bits the clamped values are other numbers that are
  just as far outside the range of an address.
\<close>

definition isspace :: "char \<Rightarrow> bool" where
  "isspace c \<longleftrightarrow> c \<in> set [CHR '' '', CHR 0x09, CHR 0x0A, CHR 0x0B, CHR 0x0C, CHR 0x0D]"

definition digit_val :: "char \<Rightarrow> nat option" where
  "digit_val c =
     (let n = (of_char c :: nat)
      in if 48 \<le> n \<and> n \<le> 57 then Some (n - 48)
         else if 97 \<le> n \<and> n \<le> 122 then Some (n - 87)
         else if 65 \<le> n \<and> n \<le> 90 then Some (n - 55)
         else None)"

definition is_digit :: "nat \<Rightarrow> char \<Rightarrow> bool" where
  "is_digit b c = (case digit_val c of None \<Rightarrow> False | Some d \<Rightarrow> d < b)"

definition digits_value :: "nat \<Rightarrow> string \<Rightarrow> int" where
  "digits_value b ds =
     foldl (\<lambda>a c. a * int b + (case digit_val c of None \<Rightarrow> 0 | Some d \<Rightarrow> int d)) 0 ds"

definition LONG_MAX :: int where
  "LONG_MAX = 2 ^ 63 - 1"

definition LONG_MIN :: int where
  "LONG_MIN = - (2 ^ 63)"

definition clamp_long :: "int \<Rightarrow> int" where
  "clamp_long v = (if LONG_MAX < v then LONG_MAX else if v < LONG_MIN then LONG_MIN else v)"

definition has_hex_prefix :: "string \<Rightarrow> bool" where
  "has_hex_prefix t =
     (case t of
        a # b # c # _ \<Rightarrow> a = CHR ''0'' \<and> (b = CHR ''x'' \<or> b = CHR ''X'') \<and> is_digit 16 c
      | _ \<Rightarrow> False)"

definition strtol :: "string \<Rightarrow> nat \<Rightarrow> int \<times> nat" where
  "strtol s base =
     (let ws = takeWhile isspace s;
          s1 = dropWhile isspace s;
          neg = (case s1 of [] \<Rightarrow> False | c # _ \<Rightarrow> c = CHR ''-'');
          signed = (case s1 of [] \<Rightarrow> False | c # _ \<Rightarrow> c = CHR ''-'' \<or> c = CHR ''+'');
          s2 = (if signed then tl s1 else s1);
          hex = ((base = 0 \<or> base = 16) \<and> has_hex_prefix s2);
          b = (if base \<noteq> 0 then base
               else if hex then 16
               else if (case s2 of [] \<Rightarrow> False | c # _ \<Rightarrow> c = CHR ''0'') then 8
               else 10);
          s3 = (if hex then drop 2 s2 else s2);
          ds = takeWhile (is_digit b) s3;
          v = digits_value b ds
      in if ds = [] then (0, 0)
         else (clamp_long (if neg then - v else v),
               length ws + (if signed then 1 else 0) + (if hex then 2 else 0) + length ds))"

text \<open>
  \<^verbatim>\<open>parse_i2c_slave_address(s)\<close>: \<^verbatim>\<open>endptr == s\<close> is offset 0, and \<^verbatim>\<open>*endptr != 0\<close> is an
  offset before the end of the string.
\<close>

definition parse_i2c_slave_address :: "string \<Rightarrow> fatal + int" where
  "parse_i2c_slave_address s =
     (let (n, endptr) = strtol s 0
      in if endptr = 0 \<or> endptr < length s then Inl (Bad_slave_address s)
         else if n < 0x3 \<or> n > 0x77 then Inl (Slave_address_outside n)
         else Inr n)"

text \<open>\<^verbatim>\<open>atoi(s)\<close>: \<^verbatim>\<open>strtol(s, NULL, 10)\<close> converted to a 32-bit \<^verbatim>\<open>int\<close>.\<close>

definition atoi :: "string \<Rightarrow> int" where
  "atoi s = sint (word_of_int (fst (strtol s 10)) :: 32 word)"

subsection \<open>The address syntax as the specification words it\<close>

text \<open>
  The specification's interface: the address is ``decimal or prefixed hex''.  A string
  denotes an address when it is a nonempty run of decimal digits, or \<^verbatim>\<open>0x\<close> or \<^verbatim>\<open>0X\<close> and a
  nonempty run of hexadecimal digits.
\<close>

definition numeral_value :: "nat \<Rightarrow> string \<Rightarrow> int option" where
  "numeral_value b ds =
     (if ds \<noteq> [] \<and> list_all (is_digit b) ds then Some (digits_value b ds) else None)"

definition hex_prefixed :: "string \<Rightarrow> bool" where
  "hex_prefixed t =
     (case t of a # b # _ \<Rightarrow> a = CHR ''0'' \<and> (b = CHR ''x'' \<or> b = CHR ''X'') | _ \<Rightarrow> False)"

definition spec_address_value :: "string \<Rightarrow> int option" where
  "spec_address_value s =
     (if hex_prefixed s then numeral_value 16 (drop 2 s) else numeral_value 10 s)"

subsection \<open>The integer syntax of the C language\<close>

text \<open>
  What \<^verbatim>\<open>strtol\<close> with base 0 reads when it reads a whole string: optional white space, an
  optional sign, then a hexadecimal numeral after \<^verbatim>\<open>0x\<close> or \<^verbatim>\<open>0X\<close>, an octal numeral that
  starts with \<^verbatim>\<open>0\<close>, or a decimal numeral.
\<close>

definition unsigned_value :: "string \<Rightarrow> int option" where
  "unsigned_value t =
     (if hex_prefixed t then numeral_value 16 (drop 2 t)
      else if (case t of [] \<Rightarrow> False | c # _ \<Rightarrow> c = CHR ''0'') then numeral_value 8 t
      else numeral_value 10 t)"

definition signed_value :: "string \<Rightarrow> int option" where
  "signed_value t =
     (case t of
        [] \<Rightarrow> None
      | c # r \<Rightarrow>
          if c = CHR ''-'' then map_option uminus (unsigned_value r)
          else if c = CHR ''+'' then unsigned_value r
          else unsigned_value t)"

definition c_integer_value :: "string \<Rightarrow> int option" where
  "c_integer_value s = signed_value (dropWhile isspace s)"

section \<open>Option processing in \<^verbatim>\<open>main\<close>\<close>

text \<open>
  The locals of \<^verbatim>\<open>main\<close>, and their initial values.  The command line is taken as the
  sequence of results of \<^verbatim>\<open>getopt(argc, argv, "HTd:b:i:a:h")\<close>, each an option character
  with its \<^verbatim>\<open>optarg\<close>; \<^verbatim>\<open>getopt\<close> answers \<^verbatim>\<open>?\<close> for what it does not accept.
\<close>

record main_state =
  m_fd :: int
  m_interval :: int
  m_ptemp :: int
  m_phum :: int
  m_slave :: int

definition main_init :: main_state where
  "main_init = \<lparr> m_fd = 0, m_interval = 0, m_ptemp = 0, m_phum = 0, m_slave = 0x28 \<rparr>"

text \<open>One pass through the \<^verbatim>\<open>switch (c)\<close>; it has no \<^verbatim>\<open>default\<close> case.\<close>

definition main_option :: "world \<Rightarrow> main_state \<Rightarrow> char \<times> string \<Rightarrow> main_state io" where
  "main_option w st opt =
     (let c = fst opt; optarg = snd opt
      in if c = CHR ''H'' then ([], Inr (st\<lparr>m_phum := 1\<rparr>))
         else if c = CHR ''T'' then ([], Inr (st\<lparr>m_ptemp := 1\<rparr>))
         else if c = CHR ''b'' then
           (if m_fd st \<noteq> 0 then ([], Inl Both_b_and_d)
            else io_bind (open_i2c_bus w optarg) (\<lambda>fd. ([], Inr (st\<lparr>m_fd := fd\<rparr>))))
         else if c = CHR ''d'' then
           (if m_fd st \<noteq> 0 then ([], Inl Both_b_and_d)
            else
              let fd = dev_nodes w optarg
              in if fd < 0 then ([Ev_open optarg O_RDWR], Inl (Die_errno (''opening '' @ optarg)))
                 else ([Ev_open optarg O_RDWR], Inr (st\<lparr>m_fd := fd\<rparr>)))
         else if c = CHR ''i'' then ([], Inr (st\<lparr>m_interval := atoi optarg\<rparr>))
         else if c = CHR ''a'' then
           (case parse_i2c_slave_address optarg of
              Inl e \<Rightarrow> ([], Inl e)
            | Inr n \<Rightarrow> ([], Inr (st\<lparr>m_slave := n\<rparr>)))
         else if c = CHR ''h'' then ([], Inl Usage)
         else ([], Inr st))"

text \<open>The \<^verbatim>\<open>while ((c = getopt(...)) != -1)\<close> loop.\<close>

fun main_options :: "world \<Rightarrow> main_state \<Rightarrow> (char \<times> string) list \<Rightarrow> main_state io" where
  "main_options w st [] = ([], Inr st)"
| "main_options w st (opt # opts) =
     io_bind (main_option w st opt) (\<lambda>st'. main_options w st' opts)"

text \<open>
  \<^verbatim>\<open>main\<close> up to the polling loop: the options, the check for arguments left over
  (\<^verbatim>\<open>optind != argc\<close>), the check that a device is open, the defaults of \<^verbatim>\<open>-T\<close> and \<^verbatim>\<open>-H\<close>,
  and the \<^verbatim>\<open>I2C_SLAVE\<close> request.  The polling loop that follows calls \<^verbatim>\<open>take_reading\<close>.
\<close>

definition main_setup :: "world \<Rightarrow> (char \<times> string) list \<Rightarrow> bool \<Rightarrow> main_state io" where
  "main_setup w opts left_over =
     io_bind (main_options w main_init opts)
       (\<lambda>st. if left_over then ([], Inl Usage)
             else if m_fd st = 0 then ([], Inl No_b_or_d)
             else
               let st' = (if m_ptemp st = 0 \<and> m_phum st = 0
                          then st\<lparr>m_ptemp := 1, m_phum := 1\<rparr> else st)
               in if ioctl_fails w
                  then ([Ev_ioctl_slave (m_fd st') (m_slave st')],
                        Inl (Die_errno ''ioctl(I2C_SLAVE)''))
                  else ([Ev_ioctl_slave (m_fd st') (m_slave st')], Inr st'))"

text \<open>The calls that bind, write to or read from an open device.\<close>

fun device_io :: "event \<Rightarrow> bool" where
  "device_io (Ev_ioctl_slave fd a) = True"
| "device_io (Ev_write fd bs) = True"
| "device_io (Ev_usleep n) = False"
| "device_io (Ev_read fd n) = True"
| "device_io e = False"

fun opens_device :: "event \<Rightarrow> bool" where
  "opens_device (Ev_open path O_RDWR) = True"
| "opens_device e = False"

section \<open>Properties of the rounding model\<close>

lemma round_half_even_error: "\<bar>of_int (round_half_even y) - y\<bar> \<le> 1 / 2"
proof -
  define d where "d = y - of_int \<lfloor>y\<rfloor>"
  have d: "0 \<le> d" "d < 1"
    unfolding d_def by linarith+
  have y: "y = of_int \<lfloor>y\<rfloor> + d"
    by (simp add: d_def)
  have "\<bar>of_int (round_half_even y) - (of_int \<lfloor>y\<rfloor> + d)\<bar> \<le> 1 / 2"
    using d unfolding round_half_even_def Let_def d_def [symmetric]
    by (simp add: abs_if)
  then show ?thesis using y by simp
qed

lemma bitlen_powi_bounds:
  assumes "0 < a"
  shows "(2::rat) powi (bitlen a - 1) \<le> of_int a" "(of_int a :: rat) < 2 powi (bitlen a)"
proof -
  from bitlen_bounds [OF assms]
  have lo: "2 ^ nat (bitlen a - 1) \<le> a" and hi: "a < 2 ^ nat (bitlen a)" by simp_all
  have ge1: "1 \<le> bitlen a"
    using assms bitlen_eq_zero_iff [of a] bitlen_nonneg [of a] by linarith
  have "(of_int (2 ^ nat (bitlen a - 1)) :: rat) \<le> of_int a"
    using lo by (simp only: of_int_le_iff)
  then show "(2::rat) powi (bitlen a - 1) \<le> of_int a"
    using ge1 by (simp add: power_int_def)
  have "(of_int a :: rat) < of_int (2 ^ nat (bitlen a))"
    using hi by (simp only: of_int_less_iff)
  then show "(of_int a :: rat) < 2 powi (bitlen a)"
    using ge1 by (simp add: power_int_def)
qed

lemma ilog2_bounds:
  assumes "0 < x"
  shows "2 powi (ilog2 x) \<le> x" "x < 2 powi (ilog2 x + 1)"
proof -
  obtain a b where q: "quotient_of x = (a, b)" by (cases "quotient_of x")
  have b: "0 < b" using q by (rule quotient_of_denom_pos)
  have x: "x = of_int a / of_int b" using q by (rule quotient_of_div)
  have a: "0 < a" using assms b x by (simp add: zero_less_divide_iff)
  note A = bitlen_powi_bounds [OF a] and B = bitlen_powi_bounds [OF b]
  let ?k = "bitlen a - bitlen b"
  have br: "(0::rat) < of_int b" using b by simp
  have up: "x < 2 powi (?k + 1)"
  proof -
    have "of_int a * (2::rat) powi (bitlen b - 1) < 2 powi (bitlen a) * of_int b"
      using A(2) B(1) a b
      by (intro mult_less_le_imp_less) (simp_all)
    then have "x * 2 powi (bitlen b - 1) < 2 powi (bitlen a)"
      using br by (simp add: x field_simps)
    then have "x < 2 powi (bitlen a) / 2 powi (bitlen b - 1)"
      by (simp add: pos_less_divide_eq)
    also have "\<dots> = 2 powi (?k + 1)"
      by (simp add: power_int_diff [symmetric] algebra_simps)
    finally show ?thesis .
  qed
  have lo: "2 powi (?k - 1) \<le> x"
  proof -
    have "(2::rat) powi (bitlen a - 1) * of_int b \<le> of_int a * 2 powi (bitlen b)"
      using A(1) B(2) a b
      by (intro mult_mono) (simp_all)
    then have "2 powi (bitlen a - 1) / 2 powi (bitlen b) \<le> x"
      using br by (simp add: x field_simps)
    moreover have "(2::rat) powi (bitlen a - 1) / 2 powi (bitlen b) = 2 powi (?k - 1)"
      by (simp add: power_int_diff [symmetric] algebra_simps)
    ultimately show ?thesis by simp
  qed
  show "2 powi (ilog2 x) \<le> x"
    using lo by (simp add: ilog2_def q Let_def)
  show "x < 2 powi (ilog2 x + 1)"
    using up by (auto simp: ilog2_def q Let_def not_le)
qed

lemma fl_error: "\<bar>fl p x - x\<bar> \<le> \<bar>x\<bar> / 2 ^ p"
proof (cases "x = 0")
  case True
  then show ?thesis by (simp add: fl_def)
next
  case False
  define e where "e = ilog2 \<bar>x\<bar>"
  define s :: rat where "s = 2 powi (e - (int p - 1))"
  have s: "0 < s" by (simp add: s_def)
  have "fl p x - x = (of_int (round_half_even (x / s)) - x / s) * s"
    using False s by (simp add: fl_def s_def e_def Let_def field_simps)
  then have "\<bar>fl p x - x\<bar> = \<bar>of_int (round_half_even (x / s)) - x / s\<bar> * s"
    using s by (simp add: abs_mult)
  also have "\<dots> \<le> (1 / 2) * s"
    using round_half_even_error [of "x / s"] s by (intro mult_right_mono) simp_all
  also have "(1 / 2) * s = 2 powi e / 2 ^ p"
  proof -
    have "s = 2 powi e * 2 / 2 powi (int p)"
      unfolding s_def by (simp add: power_int_diff power_int_add algebra_simps)
    then show ?thesis by simp
  qed
  also have "\<dots> \<le> \<bar>x\<bar> / 2 ^ p"
    using ilog2_bounds(1) [of "\<bar>x\<bar>"] False
    by (simp add: e_def divide_right_mono)
  finally show ?thesis .
qed

lemma fl_abs_error:
  assumes "\<bar>x\<bar> \<le> B"
  shows "\<bar>fl p x - x\<bar> \<le> B / 2 ^ p"
proof -
  have "\<bar>x\<bar> / 2 ^ p \<le> B / 2 ^ p"
    using assms by (simp add: divide_right_mono)
  with fl_error [of p x] show ?thesis by linarith
qed

lemma fl_nonneg:
  assumes "0 \<le> x"
  shows "0 \<le> fl p x"
proof -
  have "(1::rat) \<le> 2 ^ p" by simp
  then have "x / 2 ^ p \<le> x / 1"
    using assms by (intro divide_left_mono) simp_all
  with fl_error [of p x] assms show ?thesis by (simp add: abs_if split: if_splits)
qed

lemma abs_scaled_diff:
  fixes n c k :: rat
  assumes "0 \<le> n"
  shows "\<bar>n * c - n * k\<bar> = n * \<bar>c - k\<bar>"
proof -
  have "n * c - n * k = n * (c - k)" by (simp add: right_diff_distrib)
  then show ?thesis using assms by (simp only: abs_mult abs_of_nonneg)
qed

lemma double_error: "\<bar>x\<bar> \<le> B \<Longrightarrow> \<bar>to_double x - x\<bar> \<le> B / 9007199254740992"
  using fl_abs_error [of x B 53] by (simp add: to_double_def)

lemma float_error: "\<bar>x\<bar> \<le> B \<Longrightarrow> \<bar>to_float x - x\<bar> \<le> B / 16777216"
  using fl_abs_error [of x B 24] by (simp add: to_float_def)

section \<open>Properties of the frame decoder\<close>

subsection \<open>The raw fields as arithmetic\<close>

lemma and_3f: "(k::int) AND 0x3f = k mod 64"
proof -
  have "(0x3f::int) = mask 6" by (simp add: mask_eq_exp_minus_1)
  then show ?thesis by (simp only: flip: take_bit_eq_mask) (simp add: take_bit_eq_mod)
qed

lemma and_03: "(k::int) AND 0x03 = k mod 4"
proof -
  have "(0x03::int) = mask 2" by (simp add: mask_eq_exp_minus_1)
  then show ?thesis by (simp only: flip: take_bit_eq_mask) (simp add: take_bit_eq_mod)
qed

lemma and_ff: "(k::int) AND 0xff = k mod 256"
proof -
  have "(0xff::int) = mask 8" by (simp add: mask_eq_exp_minus_1)
  then show ?thesis by (simp only: flip: take_bit_eq_mask) (simp add: take_bit_eq_mod)
qed

lemma and_fc: 
  assumes "0 \<le> k" "k < 256" shows "(k::int) AND 0xfc = k - k mod 4"
proof -
  have "(k AND 0xfc) AND (k AND 0x03) = k AND ((0xfc::int) AND 0x03)"
    by (simp add: ac_simps)
  also have "\<dots> = 0" by simp
  finally have "(k AND 0xfc) + (k AND 0x03) = (k AND 0xfc) OR (k AND 0x03)"
    by (rule disjunctive_add_eq_or)
  also have "\<dots> = k AND ((0xfc::int) OR 0x03)"
    by (simp only: bit.conj_disj_distrib)
  also have "\<dots> = k AND 0xff" by simp
  also have "\<dots> = k" using assms by (simp add: and_ff)
  finally show ?thesis by (simp add: and_03)
qed

lemma shift_or: 
  assumes "0 \<le> y" "y < 256"
  shows "push_bit 8 (x::int) OR y = x * 256 + y"
proof -
  have "take_bit 8 y = y" using assms by (simp add: take_bit_int_eq_self)
  then have "push_bit 8 x AND y = push_bit 8 x AND take_bit 8 y" by simp
  also have "\<dots> = 0"
    by (rule bit_eqI) (auto simp: bit_simps)
  finally have "push_bit 8 x + y = push_bit 8 x OR y"
    by (rule disjunctive_add_eq_or)
  then show ?thesis by (simp add: push_bit_eq_mult)
qed

lemma uint_byte: "0 \<le> uint (b::byte)" "uint (b::byte) < 256"
  using uint_bounded [of b] by simp_all

lemma humidity_raw_arith:
  "humidity_raw data = (uint (data ! 0) mod 64) * 256 + uint (data ! 1)"
  unfolding humidity_raw_def by (simp add: shift_or uint_byte and_3f)

lemma temperature_raw_arith:
  "temperature_raw data = uint (data ! 2) * 256 + (uint (data ! 3) - uint (data ! 3) mod 4)"
proof -
  define k where "k = uint (data ! 3)"
  have k: "0 \<le> k" "k < 256" using uint_byte [of "data ! 3"] by (simp_all add: k_def)
  have m: "0 \<le> k mod 4" "k mod 4 \<le> k" using k by (simp_all add: zmod_le_nonneg_dividend)
  have "0 \<le> k - k mod 4" "k - k mod 4 < 256" using k m by linarith+
  then show ?thesis
    unfolding temperature_raw_def k_def [symmetric] using k by (simp add: shift_or and_fc)
qed

lemma humidity_raw_bounds: "0 \<le> humidity_raw data" "humidity_raw data \<le> 16383"
proof -
  have "0 \<le> uint (data ! 0) mod 64" "uint (data ! 0) mod 64 < 64" by simp_all
  then show "0 \<le> humidity_raw data" "humidity_raw data \<le> 16383"
    using uint_byte [of "data ! 1"] unfolding humidity_raw_arith by linarith+
qed

lemma temperature_raw_bounds: "0 \<le> temperature_raw data" "temperature_raw data \<le> 65532"
proof -
  define k where "k = uint (data ! 3)"
  have k: "0 \<le> k" "k < 256" using uint_byte [of "data ! 3"] by (simp_all add: k_def)
  have m: "0 \<le> k mod 4" "k mod 4 \<le> k" using k by (simp_all add: zmod_le_nonneg_dividend)
  have "k - k mod 4 = 4 * (k div 4)" by (simp add: minus_mod_eq_mult_div)
  moreover have "k div 4 \<le> 63" using k by simp
  ultimately have "k - k mod 4 \<le> 252" by linarith
  moreover have "0 \<le> k - k mod 4" using m by linarith
  ultimately show "0 \<le> temperature_raw data" "temperature_raw data \<le> 65532"
    using uint_byte [of "data ! 2"] unfolding temperature_raw_arith k_def [symmetric] by linarith+
qed

subsection \<open>Accuracy of the floating-point computation\<close>

lemma humidity_approx:
  "\<bar>humidity (decode data) - ideal_humidity (humidity_raw data)\<bar> \<le> 1 / 50000"
proof -
  define n :: rat where "n = of_int (humidity_raw data)"
  define c where "c = to_double (100 / 16383)"
  define x where "x = n * c"
  define d where "d = to_double x"
  have n: "0 \<le> n" "n \<le> 16383"
    using humidity_raw_bounds [of data] by (simp_all add: n_def)
  have c: "\<bar>c - 100 / 16383\<bar> \<le> (1 / 163) / 9007199254740992"
    unfolding c_def by (rule double_error) simp
  have "\<bar>x - n * (100 / 16383)\<bar> = n * \<bar>c - 100 / 16383\<bar>"
    unfolding x_def using n(1) by (rule abs_scaled_diff)
  also have "\<dots> \<le> 16383 * ((1 / 163) / 9007199254740992)"
    using n c by (intro mult_mono) simp_all
  finally have x: "\<bar>x - n * (100 / 16383)\<bar> \<le> 16383 * ((1 / 163) / 9007199254740992)" .
  have "n * (100 / 16383) \<le> 16383 * (100 / 16383)" "0 \<le> n * (100 / 16383)"
    using n by simp_all
  with x have xb: "\<bar>x\<bar> \<le> 101" by (simp add: abs_if split: if_splits)
  have dx: "\<bar>d - x\<bar> \<le> 101 / 9007199254740992"
    unfolding d_def using xb by (rule double_error)
  with xb have db: "\<bar>d\<bar> \<le> 102" by (simp add: abs_if split: if_splits)
  have hd: "\<bar>to_float d - d\<bar> \<le> 102 / 16777216"
    using db by (rule float_error)
  have "humidity (decode data) = to_float d"
    by (simp add: decode_def d_def x_def c_def n_def double_mul_def double_div_def double_of_int_def)
  moreover have "ideal_humidity (humidity_raw data) = n * (100 / 16383)"
    by (simp add: ideal_humidity_def n_def)
  ultimately show ?thesis
    using hd dx x by (simp add: abs_if split: if_splits)
qed

lemma temperature_approx:
  "\<bar>temperature (decode data) - ideal_temperature (temperature_raw data)\<bar> \<le> 1 / 50000"
proof -
  define n :: rat where "n = of_int (temperature_raw data)"
  define c where "c = to_double (165 / 65532)"
  define x where "x = n * c"
  define d where "d = to_double x"
  define y where "y = to_double (d - 40)"
  have n: "0 \<le> n" "n \<le> 65532"
    using temperature_raw_bounds [of data] by (simp_all add: n_def)
  have c: "\<bar>c - 165 / 65532\<bar> \<le> (1 / 397) / 9007199254740992"
    unfolding c_def by (rule double_error) simp
  have "\<bar>x - n * (165 / 65532)\<bar> = n * \<bar>c - 165 / 65532\<bar>"
    unfolding x_def using n(1) by (rule abs_scaled_diff)
  also have "\<dots> \<le> 65532 * ((1 / 397) / 9007199254740992)"
    using n c by (intro mult_mono) simp_all
  finally have x: "\<bar>x - n * (165 / 65532)\<bar> \<le> 65532 * ((1 / 397) / 9007199254740992)" .
  have i: "n * (165 / 65532) \<le> 65532 * (165 / 65532)" "0 \<le> n * (165 / 65532)"
    using n by simp_all
  with x have xb: "\<bar>x\<bar> \<le> 166" by (simp add: abs_if split: if_splits)
  have dx: "\<bar>d - x\<bar> \<le> 166 / 9007199254740992"
    unfolding d_def using xb by (rule double_error)
  with x i have db: "\<bar>d - 40\<bar> \<le> 126" by (simp add: abs_if split: if_splits)
  have yd: "\<bar>y - (d - 40)\<bar> \<le> 126 / 9007199254740992"
    unfolding y_def using db by (rule double_error)
  with db have yb: "\<bar>y\<bar> \<le> 127" by (simp add: abs_if split: if_splits)
  have ty: "\<bar>to_float y - y\<bar> \<le> 127 / 16777216"
    using yb by (rule float_error)
  have "temperature (decode data) = to_float y"
    by (simp add: decode_def y_def d_def x_def c_def n_def double_mul_def double_div_def
        double_sub_def double_of_int_def)
  moreover have "ideal_temperature (temperature_raw data) = n * (165 / 65532) - 40"
    by (simp add: ideal_temperature_def n_def)
  ultimately show ?thesis
    using ty yd dx x by (simp add: abs_if split: if_splits)
qed

subsection \<open>Range and monotonicity\<close>

text \<open>The end points of both scales are computed exactly.\<close>

lemma humidity_decode_16383:
  "to_float (double_mul (double_of_int 16383) (double_div 100 (double_of_int 0x3fff))) = 100"
  by code_simp

lemma temperature_decode_0:
  "to_float (double_sub (double_mul (double_of_int 0) (double_div 165 (double_of_int 0xfffc)))
     (double_of_int 40)) = - 40"
  by code_simp

lemma temperature_decode_65532:
  "to_float (double_sub (double_mul (double_of_int 65532) (double_div 165 (double_of_int 0xfffc)))
     (double_of_int 40)) = 125"
  by code_simp

lemma decode_range:
  "0 \<le> humidity (decode data) \<and> humidity (decode data) \<le> 100 \<and>
   - 40 \<le> temperature (decode data) \<and> temperature (decode data) \<le> 125"
proof -
  define n where "n = humidity_raw data"
  define m where "m = temperature_raw data"
  have n: "0 \<le> n" "n \<le> 16383" using humidity_raw_bounds [of data] by (simp_all add: n_def)
  have m: "0 \<le> m" "m \<le> 65532" using temperature_raw_bounds [of data] by (simp_all add: m_def)
  have h0: "0 \<le> humidity (decode data)"
  proof -
    have "0 \<le> double_div 100 (double_of_int 0x3fff)"
      unfolding double_div_def to_double_def double_of_int_def by (rule fl_nonneg) simp
    then have "0 \<le> of_int n * double_div 100 (double_of_int 0x3fff)"
      using n by simp
    then show ?thesis
      unfolding decode_def double_mul_def to_double_def to_float_def double_of_int_def
      by (simp add: fl_nonneg n_def)
  qed
  have h1: "humidity (decode data) \<le> 100"
  proof (cases "n = 16383")
    case True
    then show ?thesis
      using humidity_decode_16383 by (simp add: decode_def n_def)
  next
    case False
    with n have "n \<le> 16382" by simp
    then have "(of_int n :: rat) \<le> 16382" by simp
    then have "ideal_humidity n \<le> 16382 * 100 / 16383"
      by (simp add: ideal_humidity_def)
    with humidity_approx [of data] show ?thesis
      by (simp add: n_def abs_if split: if_splits)
  qed
  have t0: "- 40 \<le> temperature (decode data)"
  proof (cases "m = 0")
    case True
    then show ?thesis
      using temperature_decode_0 by (simp add: decode_def m_def)
  next
    case False
    with m have "1 \<le> m" by simp
    then have "(1 :: rat) \<le> of_int m" by simp
    then have "1 * 165 / 65532 - 40 \<le> ideal_temperature m"
      by (simp add: ideal_temperature_def)
    with temperature_approx [of data] show ?thesis
      by (simp add: m_def abs_if split: if_splits)
  qed
  have t1: "temperature (decode data) \<le> 125"
  proof (cases "m = 65532")
    case True
    then show ?thesis
      using temperature_decode_65532 by (simp add: decode_def m_def)
  next
    case False
    with m have "m \<le> 65531" by simp
    then have "(of_int m :: rat) \<le> 65531" by simp
    then have "ideal_temperature m \<le> 65531 * 165 / 65532 - 40"
      by (simp add: ideal_temperature_def)
    with temperature_approx [of data] show ?thesis
      by (simp add: m_def abs_if split: if_splits)
  qed
  from h0 h1 t0 t1 show ?thesis by simp
qed

lemma humidity_strict_mono:
  assumes "humidity_raw f < humidity_raw g"
  shows "humidity (decode f) < humidity (decode g)"
proof -
  have "humidity_raw f + 1 \<le> humidity_raw g" using assms by simp
  then have "(of_int (humidity_raw f + 1) :: rat) \<le> of_int (humidity_raw g)"
    by (simp only: of_int_le_iff)
  then have "(of_int (humidity_raw f) :: rat) + 1 \<le> of_int (humidity_raw g)"
    by simp
  then have "ideal_humidity (humidity_raw f) + 100 / 16383 \<le> ideal_humidity (humidity_raw g)"
    by (simp add: ideal_humidity_def)
  with humidity_approx [of f] humidity_approx [of g] show ?thesis
    by (simp add: abs_if split: if_splits)
qed

lemma temperature_strict_mono:
  assumes "temperature_raw f < temperature_raw g"
  shows "temperature (decode f) < temperature (decode g)"
proof -
  have "temperature_raw f + 1 \<le> temperature_raw g" using assms by simp
  then have "(of_int (temperature_raw f + 1) :: rat) \<le> of_int (temperature_raw g)"
    by (simp only: of_int_le_iff)
  then have "(of_int (temperature_raw f) :: rat) + 1 \<le> of_int (temperature_raw g)"
    by simp
  then have "ideal_temperature (temperature_raw f) + 165 / 65532
      \<le> ideal_temperature (temperature_raw g)"
    by (simp add: ideal_temperature_def)
  with temperature_approx [of f] temperature_approx [of g] show ?thesis
    by (simp add: abs_if split: if_splits)
qed

subsection \<open>The claims about the decoder\<close>

text \<open>
  C1.  On every four-byte frame the decoder of \<^verbatim>\<open>take_reading\<close> returns what the
  specification's reference definition returns: the humidity is
  \<^verbatim>\<open>((b0 & 0x3f) << 8 | b1) * (100.0 / 16383.0)\<close> and the temperature is
  \<^verbatim>\<open>((b2 << 8) | (b3 & 0xfc)) * (165.0 / 65532.0) - 40.0\<close>.  The divisor is 65532 and not
  16380: at the frame \<open>00 00 ff fc\<close> the decoder's temperature differs from what the 16380
  formula gives.  Read as exact arithmetic, the two formulas are met to within
  \<open>1 / 50000\<close>, the rounding of the floating-point operations.
\<close>

theorem decode_refines_spec:
  "decode [b0, b1, b2, b3] = spec_decode b0 b1 b2 b3 \<and>
   temperature (decode [0x00, 0x00, 0xff, 0xfc]) \<noteq> spec_temperature_16380 0xff 0xfc \<and>
   \<bar>humidity (decode [b0, b1, b2, b3]) - ideal_humidity (spec_humidity_raw b0 b1)\<bar>
     \<le> 1 / 50000 \<and>
   \<bar>temperature (decode [b0, b1, b2, b3]) - ideal_temperature (spec_temperature_raw b2 b3)\<bar>
     \<le> 1 / 50000"
proof -
  have raw: "humidity_raw [b0, b1, b2, b3] = spec_humidity_raw b0 b1"
    "temperature_raw [b0, b1, b2, b3] = spec_temperature_raw b2 b3"
    by (simp_all add: humidity_raw_arith temperature_raw_arith spec_humidity_raw_def
        spec_temperature_raw_def minus_mod_eq_div_mult)
  note approx = humidity_approx [of "[b0, b1, b2, b3]", unfolded raw]
    temperature_approx [of "[b0, b1, b2, b3]", unfolded raw]
  have "uint b3 - uint b3 mod 4 = uint b3 div 4 * 4"
    by (simp add: minus_mod_eq_div_mult)
  then have "decode [b0, b1, b2, b3] = spec_decode b0 b1 b2 b3"
    by (simp add: decode_def spec_decode_def humidity_raw_arith temperature_raw_arith
        spec_humidity_raw_def spec_temperature_raw_def double_of_int_def)
  moreover have "temperature_raw [0x00, 0x00, 0xff, 0xfc] = 65532"
    by (simp add: temperature_raw_def)
  then have "temperature (decode [0x00, 0x00, 0xff, 0xfc]) = 125"
    using temperature_decode_65532 by (simp add: decode_def)
  moreover have "spec_temperature_16380 0xff 0xfc \<noteq> 125"
    by code_simp
  ultimately show ?thesis using approx by simp
qed

text \<open>
  C2.  Two frames that agree on the low six bits of byte 0, on bytes 1 and 2 and on the
  high six bits of byte 3 (so they differ at most in the two status bits on top of byte 0
  and the two at the bottom of byte 3) decode to the same reading.
\<close>

theorem decode_ignores_status_bits:
  assumes "a0 AND 0x3f = b0 AND 0x3f" and "a3 AND 0xfc = b3 AND 0xfc"
  shows "decode [a0, b1, b2, a3] = decode [b0, b1, b2, b3]"
proof -
  have "uint (a0 AND 0x3f) = uint (b0 AND 0x3f)" "uint (a3 AND 0xfc) = uint (b3 AND 0xfc)"
    using assms by simp_all
  then have "uint a0 AND 0x3f = uint b0 AND 0x3f" "uint a3 AND 0xfc = uint b3 AND 0xfc"
    by (simp_all add: uint_and)
  then show ?thesis
    by (simp add: decode_def humidity_raw_def temperature_raw_def)
qed

theorem decode_ignores_status_bits_witness:
  "(0xC0 :: byte) AND 0x3f = 0x00 AND 0x3f \<and> (0x03 :: byte) AND 0xfc = 0x00 AND 0xfc \<and>
   decode [0xC0, 0x00, 0x00, 0x03] = decode [0x00, 0x00, 0x00, 0x00]"
proof -
  have a: "(0xC0 :: byte) AND 0x3f = 0x00 AND 0x3f" by simp
  have b: "(0x03 :: byte) AND 0xfc = 0x00 AND 0xfc" by simp
  from decode_ignores_status_bits [OF a b] a b show ?thesis by blast
qed

text \<open>
  C3.  The reading decoded from the frame \<open>00 00 ff fc\<close> has temperature 125, above the
  upper end 120 of the range that the claim and the comment in \<^verbatim>\<open>take_reading\<close> give.
  (Lemma \<open>decode_range\<close> above has the range the code keeps: humidity within 0 and 100,
  temperature within -40 and 125.)
\<close>

theorem decode_max_temperature:
  "temperature (decode [0x00, 0x00, 0xff, 0xfc]) = 125 \<and>
   \<not> temperature (decode [0x00, 0x00, 0xff, 0xfc]) \<le> 120"
proof -
  have "temperature_raw [0x00, 0x00, 0xff, 0xfc] = 65532"
    by (simp add: temperature_raw_def)
  then have "temperature (decode [0x00, 0x00, 0xff, 0xfc]) = 125"
    using temperature_decode_65532 by (simp add: decode_def)
  then show ?thesis by simp
qed

text \<open>
  C4.  The decoder is strictly monotone in each masked raw field: of two frames, the one
  with the larger humidity raw value decodes to the strictly larger humidity, and the one
  with the larger temperature raw value decodes to the strictly larger temperature.
\<close>

theorem decode_strictly_monotone:
  "(humidity_raw [a0, a1, a2, a3] < humidity_raw [b0, b1, b2, b3] \<longrightarrow>
      humidity (decode [a0, a1, a2, a3]) < humidity (decode [b0, b1, b2, b3])) \<and>
   (temperature_raw [a0, a1, a2, a3] < temperature_raw [b0, b1, b2, b3] \<longrightarrow>
      temperature (decode [a0, a1, a2, a3]) < temperature (decode [b0, b1, b2, b3]))"
  using humidity_strict_mono temperature_strict_mono by blast

theorem decode_strictly_monotone_witness:
  "humidity_raw [0x00, 0x00, 0x00, 0x00] < humidity_raw [0x00, 0x01, 0x00, 0x04] \<and>
   humidity (decode [0x00, 0x00, 0x00, 0x00]) < humidity (decode [0x00, 0x01, 0x00, 0x04]) \<and>
   temperature_raw [0x00, 0x00, 0x00, 0x00] < temperature_raw [0x00, 0x01, 0x00, 0x04] \<and>
   temperature (decode [0x00, 0x00, 0x00, 0x00]) < temperature (decode [0x00, 0x01, 0x00, 0x04])"
  using decode_strictly_monotone [of 0 0 0 0 0 1 0 4]
  by (simp add: humidity_raw_def temperature_raw_def)

section \<open>Properties of the sensor transaction\<close>

lemma take_reading_write_failed:
  assumes "sys_write dev [0] < 0"
  shows "take_reading dev fd = ([Ev_write fd [0]], Inl (Die_errno ''writing to i2c''))"
  using assms by (simp add: take_reading_def)

lemma take_reading_first_call:
  "\<exists>calls. fst (take_reading dev fd) = Ev_write fd [0] # calls"
  by (simp add: take_reading_def Let_def split: prod.split)

text \<open>
  C5.  The transaction starts by writing the single byte 0, and a write that fails ends
  it before the read (the two lemmas above).  A write that transfers no byte is not
  noticed: with a device that answers the write with 0 bytes taken, \<^verbatim>\<open>take_reading\<close>
  goes on to the delay and the read and returns a reading.
\<close>

theorem short_write_not_detected:
  "sys_write \<lparr>dev_write = (\<lambda>bs. Sys_ok 0), dev_read = (\<lambda>n. Sys_ok [0, 0, 0, 0])\<rparr> [0] = 0 \<and>
   take_reading \<lparr>dev_write = (\<lambda>bs. Sys_ok 0), dev_read = (\<lambda>n. Sys_ok [0, 0, 0, 0])\<rparr> 3 =
     ([Ev_write 3 [0], Ev_usleep 60000, Ev_read 3 4], Inr (decode [0, 0, 0, 0]))"
  by (simp add: take_reading_def sys_write_def sys_read_def)

text \<open>
  C6.  When the write has not failed and the read delivers fewer than four bytes,
  \<^verbatim>\<open>take_reading\<close> ends the program through the short-read exit, with status 1 and a
  message on standard error, after one write, the delay and one read: no second read is
  made and no reading is produced.  This exit is not the one of a failed system call.  A reading is produced only when the read has
  returned four bytes, and it is decoded from them.
\<close>

theorem short_read_is_fatal:
  "(0 \<le> sys_write dev [0] \<and> dev_read dev 4 = Sys_ok bs \<and> length bs < 4 \<longrightarrow>
      take_reading dev fd =
        ([Ev_write fd [0], Ev_usleep 60000, Ev_read fd 4], Inl (Short_read (int (length bs)))) \<and>
      exit_status (Short_read (int (length bs))) = 1 \<and>
      writes_stderr (Short_read (int (length bs))) \<and>
      Short_read (int (length bs)) \<noteq> Die_errno msg) \<and>
   (snd (take_reading dev fd) = Inr r \<longrightarrow>
      (\<exists>data. dev_read dev 4 = Sys_ok data \<and> length (take 4 data) = 4 \<and>
         r = decode (take 4 data)))"
proof (intro conjI impI)
  assume a: "0 \<le> sys_write dev [0] \<and> dev_read dev 4 = Sys_ok bs \<and> length bs < 4"
  then show "take_reading dev fd =
      ([Ev_write fd [0], Ev_usleep 60000, Ev_read fd 4], Inl (Short_read (int (length bs))))"
    by (simp add: take_reading_def sys_read_def)
next
  assume r: "snd (take_reading dev fd) = Inr r"
  show "\<exists>data. dev_read dev 4 = Sys_ok data \<and> length (take 4 data) = 4 \<and> r = decode (take 4 data)"
  proof (cases "dev_read dev 4")
    case Sys_error
    with r show ?thesis
      by (simp add: take_reading_def sys_read_def Let_def split: if_splits)
  next
    case (Sys_ok data)
    with r show ?thesis
      by (auto simp: take_reading_def sys_read_def Let_def split: if_splits)
  qed
qed simp_all

theorem short_read_is_fatal_witness:
  "0 \<le> sys_write \<lparr>dev_write = (\<lambda>bs. Sys_ok 1), dev_read = (\<lambda>n. Sys_ok [0x12, 0x34])\<rparr> [0] \<and>
   take_reading \<lparr>dev_write = (\<lambda>bs. Sys_ok 1), dev_read = (\<lambda>n. Sys_ok [0x12, 0x34])\<rparr> 3 =
     ([Ev_write 3 [0], Ev_usleep 60000, Ev_read 3 4], Inl (Short_read 2)) \<and>
   snd (take_reading \<lparr>dev_write = (\<lambda>bs. Sys_ok 1),
          dev_read = (\<lambda>n. Sys_ok [0x3f, 0xff, 0x00, 0x00])\<rparr> 3) =
     Inr (decode [0x3f, 0xff, 0x00, 0x00]) \<and>
   (\<exists>data. dev_read \<lparr>dev_write = (\<lambda>bs. Sys_ok 1),
          dev_read = (\<lambda>n. Sys_ok [0x3f, 0xff, 0x00, 0x00])\<rparr> 4 = Sys_ok data \<and>
      length (take 4 data) = 4)"
proof -
  let ?short = "\<lparr>dev_write = (\<lambda>bs. Sys_ok 1), dev_read = (\<lambda>n. Sys_ok [0x12, 0x34 :: byte])\<rparr>"
  let ?full = "\<lparr>dev_write = (\<lambda>bs. Sys_ok 1),
                 dev_read = (\<lambda>n. Sys_ok [0x3f, 0xff, 0x00, 0x00 :: byte])\<rparr>"
  have w: "0 \<le> sys_write ?short [0]" by (simp add: sys_write_def)
  have f: "snd (take_reading ?full 3) = Inr (decode [0x3f, 0xff, 0x00, 0x00])"
    by (simp add: take_reading_def sys_write_def sys_read_def)
  from short_read_is_fatal [of ?short "[0x12, 0x34]" 3 "[]" "decode [0x3f, 0xff, 0x00, 0x00]"] w
  have "take_reading ?short 3 =
     ([Ev_write 3 [0], Ev_usleep 60000, Ev_read 3 4], Inl (Short_read 2))"
    by simp
  moreover from short_read_is_fatal [of ?full "[]" 3 "[]" "decode [0x3f, 0xff, 0x00, 0x00]"] f
  have "\<exists>data. dev_read ?full 4 = Sys_ok data \<and> length (take 4 data) = 4"
    by blast
  ultimately show ?thesis using w f by blast
qed

section \<open>Properties of the bus locator\<close>

lemma snoc_eq_iff:
  assumes "length c = Suc (length w)"
  shows "(c = w @ [x]) = (take (length w) c = w \<and> c ! length w = x)"
proof -
  have "c = take (length w) c @ [c ! length w]"
    using assms by (metis lessI take_Suc_conv_app_nth take_all order_refl)
  then show ?thesis
    by (metis append1_eq_conv append_eq_conv_conj)
qed

lemma name_test_iff:
  "(let buf = take (length want + 2) c; got = length buf
    in if got = length want \<or> (got = length want + 1 \<and> buf ! length want = CHR 0x0A)
       then take (length want) want = take (length want) buf else False)
   = (c = want \<or> c = want @ [CHR 0x0A])"
proof -
  define n where "n = length want"
  have tw: "take n want = want" by (simp add: n_def)
  consider "length c = n" | "length c = Suc n" | "length c < n" | "Suc n < length c"
    by linarith
  then show ?thesis
  proof cases
    case 1
    then have "take (n + 2) c = c" by simp
    moreover have "c \<noteq> want @ [CHR 0x0A]" using 1 by (auto simp: n_def)
    ultimately show ?thesis using 1 by (auto simp: n_def Let_def)
  next
    case 2
    then have b: "take (n + 2) c = c" by simp
    have "c \<noteq> want" using 2 by (auto simp: n_def)
    moreover have "(c = want @ [CHR 0x0A]) = (take n c = want \<and> c ! n = CHR 0x0A)"
      unfolding n_def by (rule snoc_eq_iff) (use 2 in \<open>simp add: n_def\<close>)
    ultimately show ?thesis
      unfolding Let_def n_def [symmetric] b tw using 2 by auto
  next
    case 3
    then have b: "take (n + 2) c = c" by simp
    have "c \<noteq> want" "c \<noteq> want @ [CHR 0x0A]" using 3 by (auto simp: n_def)
    then show ?thesis
      unfolding Let_def n_def [symmetric] b tw using 3 by auto
  next
    case 4
    then have b: "length (take (n + 2) c) = n + 2" by simp
    have "c \<noteq> want" "c \<noteq> want @ [CHR 0x0A]" using 4 by (auto simp: n_def)
    then show ?thesis
      unfolding Let_def n_def [symmetric] b by simp
  qed
qed

text \<open>
  C7.  When the descriptor file of an entry can be read, \<^verbatim>\<open>name_file_matches\<close> answers
  that it matches exactly when its content is the wanted name, or the wanted name
  followed by one newline.
\<close>

theorem name_file_matches_iff:
  assumes "\<not> asprintf_fails w"
    and "name_files w (dir @ ''/'' @ subdir @ ''/name'') = Contents c"
  shows "snd (name_file_matches w dir subdir want) =
           Inr (c = want \<or> c = want @ [CHR 0x0A])"
  using assms name_test_iff [of want c]
  by (simp add: name_file_matches_def Let_def)

theorem name_file_matches_iff_witness:
  "\<not> asprintf_fails
       \<lparr>asprintf_fails = False, name_files = (\<lambda>p. Contents (''bcm.1'' @ [CHR 0x0A])),
        dev_nodes = (\<lambda>p. 3), i2c_dev_dir = Entries [''i2c-1''] False, ioctl_fails = False\<rparr> \<and>
   snd (name_file_matches
       \<lparr>asprintf_fails = False, name_files = (\<lambda>p. Contents (''bcm.1'' @ [CHR 0x0A])),
        dev_nodes = (\<lambda>p. 3), i2c_dev_dir = Entries [''i2c-1''] False, ioctl_fails = False\<rparr>
       ''/sys/class/i2c-dev'' ''i2c-1'' ''bcm.1'') = Inr True \<and>
   snd (name_file_matches
       \<lparr>asprintf_fails = False, name_files = (\<lambda>p. Contents (''bcm.1'' @ [CHR 0x0A])),
        dev_nodes = (\<lambda>p. 3), i2c_dev_dir = Entries [''i2c-1''] False, ioctl_fails = False\<rparr>
       ''/sys/class/i2c-dev'' ''i2c-1'' ''bcm.2'') = Inr False"
proof -
  let ?w = "\<lparr>asprintf_fails = False, name_files = (\<lambda>p. Contents (''bcm.1'' @ [CHR 0x0A])),
        dev_nodes = (\<lambda>p. 3), i2c_dev_dir = Entries [''i2c-1''] False, ioctl_fails = False\<rparr>"
  have a: "\<not> asprintf_fails ?w" by simp
  have f: "name_files ?w (''/sys/class/i2c-dev'' @ ''/'' @ ''i2c-1'' @ ''/name'')
      = Contents (''bcm.1'' @ [CHR 0x0A])" by simp
  from name_file_matches_iff [OF a f, of "''bcm.1''"] name_file_matches_iff [OF a f, of "''bcm.2''"]
  show ?thesis by simp
qed

section \<open>Properties of the address parser\<close>

lemma takeWhile_whole:
  "(xs \<noteq> [] \<and> list_all P xs) =
   (takeWhile P xs \<noteq> [] \<and> length (takeWhile P xs) = length xs)"
proof (cases "list_all P xs")
  case True
  then have tw: "takeWhile P xs = xs" by (simp add: list_all_iff)
  show ?thesis unfolding tw using True by simp
next
  case False
  then have "takeWhile P xs \<noteq> xs"
    by (metis list_all_iff set_takeWhileD)
  then have "length (takeWhile P xs) \<noteq> length xs"
    by (metis takeWhile_eq_take take_all order_refl)
  with False show ?thesis by simp
qed

lemma numeral_value_takeWhile:
  "numeral_value b t =
     (if takeWhile (is_digit b) t \<noteq> [] \<and> length (takeWhile (is_digit b) t) = length t
      then Some (digits_value b (takeWhile (is_digit b) t)) else None)"
proof (cases "t \<noteq> [] \<and> list_all (is_digit b) t")
  case True
  then have tw: "takeWhile (is_digit b) t = t" by (simp add: list_all_iff)
  show ?thesis unfolding tw numeral_value_def using True by simp
next
  case False
  then have "\<not> (takeWhile (is_digit b) t \<noteq> [] \<and>
      length (takeWhile (is_digit b) t) = length t)"
    using takeWhile_whole [of t "is_digit b"] by blast
  with False show ?thesis
    by (simp only: numeral_value_def if_False)
qed

lemma is_digit_chars:
  "is_digit 8 (CHR ''0'')" "\<not> is_digit 8 (CHR ''x'')" "\<not> is_digit 8 (CHR ''X'')"
  "is_digit 10 (CHR ''0'')" "is_digit 16 (CHR ''0'')"
  by (simp_all add: is_digit_def digit_val_def)

text \<open>The part of \<^verbatim>\<open>strtol\<close> after the sign, on the string that starts there.\<close>

lemma unsigned_value_scan:
  fixes t :: string
  defines "hex \<equiv> has_hex_prefix t"
  defines "b \<equiv> (if hex then 16 else if (case t of [] \<Rightarrow> False | c # _ \<Rightarrow> c = CHR ''0'') then 8
                 else (10::nat))"
  defines "ds \<equiv> takeWhile (is_digit b) (if hex then drop 2 t else t)"
  shows "unsigned_value t =
     (if ds \<noteq> [] \<and> (if hex then 2 else 0) + length ds = length t
      then Some (digits_value b ds) else None)"
proof (cases "hex_prefixed t")
  case True
  then obtain x r where t: "t = CHR ''0'' # x # r" and x: "x = CHR ''x'' \<or> x = CHR ''X''"
    by (auto simp: hex_prefixed_def split: list.splits)
  show ?thesis
  proof (cases hex)
    case h: True
    then have "length t = 2 + length r" using t by simp
    then show ?thesis
      using h True t unfolding ds_def b_def
      by (simp add: unsigned_value_def numeral_value_takeWhile [of 16 r])
  next
    case h: False
    then have r: "r = [] \<or> \<not> is_digit 16 (hd r)"
      using t x by (cases r) (auto simp: hex_def has_hex_prefix_def)
    then have "numeral_value 16 r = None"
      by (cases r) (auto simp: numeral_value_def)
    moreover have "ds = [CHR ''0'']"
      using h t x unfolding ds_def b_def by (auto simp: is_digit_chars)
    ultimately show ?thesis
      using h True t by (simp add: unsigned_value_def)
  qed
next
  case False
  then have h: "\<not> hex"
    by (auto simp: hex_def has_hex_prefix_def hex_prefixed_def split: list.splits)
  show ?thesis
    using False h unfolding ds_def b_def
    by (simp add: unsigned_value_def numeral_value_takeWhile)
qed

lemma strtol_0_unfold:
  "strtol s 0 =
     (let ws = takeWhile isspace s;
          s1 = dropWhile isspace s;
          neg = (case s1 of [] \<Rightarrow> False | c # _ \<Rightarrow> c = CHR ''-'');
          signed = (case s1 of [] \<Rightarrow> False | c # _ \<Rightarrow> c = CHR ''-'' \<or> c = CHR ''+'');
          s2 = (if signed then tl s1 else s1);
          hex = has_hex_prefix s2;
          b = (if hex then 16
               else if (case s2 of [] \<Rightarrow> False | c # _ \<Rightarrow> c = CHR ''0'') then 8
               else 10);
          ds = takeWhile (is_digit b) (if hex then drop 2 s2 else s2)
      in if ds = [] then (0, 0)
         else (clamp_long (if neg then - digits_value b ds else digits_value b ds),
               length ws + (if signed then 1 else 0) + (if hex then 2 else 0) + length ds))"
  by (simp add: strtol_def Let_def)

lemma unsigned_value_None_nil [simp]: "unsigned_value [] = None"
  by (simp add: unsigned_value_def hex_prefixed_def numeral_value_def)

lemma scan_length_le:
  "(if has_hex_prefix t then 2 else 0) + length (takeWhile P (if has_hex_prefix t then drop 2 t else t))
     \<le> length t"
proof (cases "has_hex_prefix t")
  case True
  then have "2 \<le> length t" by (auto simp: has_hex_prefix_def split: list.splits)
  moreover have "length (takeWhile P (drop 2 t)) \<le> length (drop 2 t)"
    by (rule length_takeWhile_le)
  ultimately show ?thesis using True by simp
next
  case False
  then show ?thesis by (simp add: length_takeWhile_le)
qed

lemma strtol_c_integer:
  "(case c_integer_value s of
      None \<Rightarrow> snd (strtol s 0) = 0 \<or> snd (strtol s 0) < length s
    | Some v \<Rightarrow> strtol s 0 = (clamp_long v, length s) \<and> s \<noteq> [])"
proof -
  define ws where "ws = takeWhile isspace s"
  define s1 where "s1 = dropWhile isspace s"
  have len: "length s = length ws + length s1"
    unfolding ws_def s1_def by (metis length_append takeWhile_dropWhile_id)
  define signed where "signed = (case s1 of [] \<Rightarrow> False | c # _ \<Rightarrow> c = CHR ''-'' \<or> c = CHR ''+'')"
  define neg where "neg = (case s1 of [] \<Rightarrow> False | c # _ \<Rightarrow> c = CHR ''-'')"
  define s2 where "s2 = (if signed then tl s1 else s1)"
  define hex where "hex = has_hex_prefix s2"
  define b where "b = (if hex then 16
               else if (case s2 of [] \<Rightarrow> False | c # _ \<Rightarrow> c = CHR ''0'') then 8
               else (10::nat))"
  define ds where "ds = takeWhile (is_digit b) (if hex then drop 2 s2 else s2)"
  have st: "strtol s 0 = (if ds = [] then (0, 0)
         else (clamp_long (if neg then - digits_value b ds else digits_value b ds),
               length ws + (if signed then 1 else 0) + (if hex then 2 else 0) + length ds))"
    unfolding strtol_0_unfold Let_def ws_def s1_def neg_def signed_def s2_def hex_def b_def ds_def
    by (rule refl)
  have uv: "unsigned_value s2 =
     (if ds \<noteq> [] \<and> (if hex then 2 else 0) + length ds = length s2
      then Some (digits_value b ds) else None)"
    unfolding ds_def b_def hex_def by (rule unsigned_value_scan)
  have le: "(if hex then 2 else 0) + length ds \<le> length s2"
    unfolding ds_def hex_def by (rule scan_length_le)
  have len1: "length s1 = (if signed then 1 else 0) + length s2"
    unfolding s2_def signed_def by (cases s1) auto
  have cv: "c_integer_value s =
      (if neg then map_option uminus (unsigned_value s2) else unsigned_value s2)"
    unfolding c_integer_value_def s1_def [symmetric] signed_value_def s2_def signed_def neg_def
    by (cases s1) auto
  show ?thesis
  proof (cases "ds \<noteq> [] \<and> (if hex then 2 else 0) + length ds = length s2")
    case True
    then have "unsigned_value s2 = Some (digits_value b ds)" using uv by simp
    moreover have "length ws + (if signed then 1 else 0) + (if hex then 2 else 0) + length ds
        = length s"
      using True len len1 by simp
    moreover have "s \<noteq> []" using True len len1 by auto
    ultimately show ?thesis using True st cv by auto
  next
    case False
    then have "unsigned_value s2 = None" using uv by simp
    then have "c_integer_value s = None" using cv by simp
    moreover have "snd (strtol s 0) = 0 \<or> snd (strtol s 0) < length s"
    proof (cases "ds = []")
      case True
      then show ?thesis using st by simp
    next
      case ne: False
      with False le have "(if hex then 2 else 0) + length ds < length s2" by simp
      then show ?thesis using st ne len len1 by simp
    qed
    ultimately show ?thesis by simp
  qed
qed

lemma clamp_long_range:
  "(clamp_long v < 3) = (v < 3)" "(0x77 < clamp_long v) = (0x77 < v)"
  "\<not> v < 3 \<Longrightarrow> \<not> 0x77 < v \<Longrightarrow> clamp_long v = v"
  by (auto simp: clamp_long_def LONG_MAX_def LONG_MIN_def)

lemma parse_address_c_syntax:
  "parse_i2c_slave_address s =
     (case c_integer_value s of
        None \<Rightarrow> Inl (Bad_slave_address s)
      | Some v \<Rightarrow>
          if v < 0x03 \<or> 0x77 < v then Inl (Slave_address_outside (clamp_long v)) else Inr v)"
proof (cases "c_integer_value s")
  case None
  with strtol_c_integer [of s] show ?thesis
    by (auto simp: parse_i2c_slave_address_def split: prod.splits)
next
  case (Some v)
  with strtol_c_integer [of s] have "strtol s 0 = (clamp_long v, length s)" "s \<noteq> []"
    by simp_all
  then show ?thesis
    using Some clamp_long_range [of v]
    by (auto simp: parse_i2c_slave_address_def)
qed

lemma c_integer_value_spec:
  assumes "spec_address_value s = Some v"
    and "hex_prefixed s \<or> (case s of [] \<Rightarrow> False | c # _ \<Rightarrow> c \<noteq> CHR ''0'')"
  shows "c_integer_value s = Some v"
proof (cases "hex_prefixed s")
  case True
  then obtain x r where s: "s = CHR ''0'' # x # r"
    by (auto simp: hex_prefixed_def split: list.splits)
  have "\<not> isspace (CHR ''0'')" by (simp add: isspace_def)
  then have "dropWhile isspace s = s" using s by simp
  then show ?thesis
    using assms(1) True s
    by (simp add: c_integer_value_def signed_value_def unsigned_value_def spec_address_value_def)
next
  case False
  with assms obtain c r where s: "s = c # r" and c: "c \<noteq> CHR ''0''"
    by (auto split: list.splits)
  have n: "numeral_value 10 s = Some v"
    using assms(1) False by (simp add: spec_address_value_def)
  then have d: "is_digit 10 c"
    using s by (simp add: numeral_value_def split: if_splits)
  have "\<not> isspace c" "c \<noteq> CHR ''-''" "c \<noteq> CHR ''+''"
    using d by (auto simp: isspace_def is_digit_def digit_val_def)
  then show ?thesis
    using n False s c
    by (simp add: c_integer_value_def signed_value_def unsigned_value_def)
qed

text \<open>
  C8.  \<^verbatim>\<open>parse_i2c_slave_address\<close> returns the value exactly when the whole argument is an
  integer in the syntax of \<^verbatim>\<open>strtol\<close> with base 0 (optional white space and sign, then
  hexadecimal after \<^verbatim>\<open>0x\<close>, octal after a leading \<^verbatim>\<open>0\<close>, or decimal) and the value lies
  between \<^verbatim>\<open>0x03\<close> and \<^verbatim>\<open>0x77\<close>; any other argument ends the program, as a bad
  address or as an address outside the legal range.  The specification's own syntax
  (decimal, or hexadecimal after \<^verbatim>\<open>0x\<close>) is read with the same value whenever the string
  has the hexadecimal prefix or does not start with \<^verbatim>\<open>0\<close>.
\<close>

theorem parse_address_follows_c_syntax:
  "parse_i2c_slave_address s =
     (case c_integer_value s of
        None \<Rightarrow> Inl (Bad_slave_address s)
      | Some v \<Rightarrow>
          if v < 0x03 \<or> 0x77 < v then Inl (Slave_address_outside (clamp_long v)) else Inr v) \<and>
   (spec_address_value s = Some v \<and>
    (hex_prefixed s \<or> (case s of [] \<Rightarrow> False | c # _ \<Rightarrow> c \<noteq> CHR ''0'')) \<longrightarrow>
      c_integer_value s = Some v)"
  using parse_address_c_syntax [of s] c_integer_value_spec [of s v] by blast

theorem parse_address_follows_c_syntax_witness:
  "spec_address_value ''0x28'' = Some 40 \<and> hex_prefixed ''0x28'' \<and>
   parse_i2c_slave_address ''0x28'' = Inr 40 \<and>
   parse_i2c_slave_address ''0x02'' = Inl (Slave_address_outside 2) \<and>
   parse_i2c_slave_address ''0x78'' = Inl (Slave_address_outside 120) \<and>
   parse_i2c_slave_address ''forty'' = Inl (Bad_slave_address ''forty'')"
proof -
  have s: "spec_address_value ''0x28'' = Some 40" by code_simp
  have h: "hex_prefixed ''0x28''" by code_simp
  have c: "c_integer_value ''0x02'' = Some 2" "c_integer_value ''0x78'' = Some 120"
    "c_integer_value ''forty'' = None"
    by code_simp+
  have k: "clamp_long 2 = 2" "clamp_long 120 = 120" by code_simp+
  from parse_address_follows_c_syntax [of "''0x28''" 40] s h
  have "parse_i2c_slave_address ''0x28'' = Inr 40" by simp
  moreover from parse_address_follows_c_syntax [of "''0x02''" 0] c k
  have "parse_i2c_slave_address ''0x02'' = Inl (Slave_address_outside 2)" by simp
  moreover from parse_address_follows_c_syntax [of "''0x78''" 0] c k
  have "parse_i2c_slave_address ''0x78'' = Inl (Slave_address_outside 120)" by simp
  moreover from parse_address_follows_c_syntax [of "''forty''" 0] c
  have "parse_i2c_slave_address ''forty'' = Inl (Bad_slave_address ''forty'')" by simp
  ultimately show ?thesis using s h by blast
qed

text \<open>
  The claim as the specification words it fails on a decimal numeral with a leading
  zero: \<^verbatim>\<open>09\<close> is decimal 9, inside the range, and the parser rejects it.
\<close>

theorem parse_address_decimal_counterexample:
  "spec_address_value ''09'' = Some 9 \<and> (0x03 :: int) \<le> 9 \<and> (9 :: int) \<le> 0x77 \<and>
   parse_i2c_slave_address ''09'' = Inl (Bad_slave_address ''09'')"
  by code_simp

lemma digits_value_leading_zero:
  "digits_value b (CHR ''0'' # ds) = digits_value b ds"
  by (simp add: digits_value_def digit_val_def)

text \<open>
  C10.  An argument that is \<^verbatim>\<open>0\<close> followed by octal digits is accepted and read in base
  8: the parser answers with the octal value when it lies in the range.  So \<^verbatim>\<open>010\<close> is
  the address 8, not the decimal 10.
\<close>

theorem leading_zero_is_octal:
  assumes "list_all (is_digit 8) ds"
  shows "parse_i2c_slave_address (CHR ''0'' # ds) =
           (if digits_value 8 ds < 0x03 \<or> 0x77 < digits_value 8 ds
            then Inl (Slave_address_outside (clamp_long (digits_value 8 ds)))
            else Inr (digits_value 8 ds))"
proof -
  have "\<not> hex_prefixed (CHR ''0'' # ds)"
    using assms by (cases ds) (auto simp: hex_prefixed_def is_digit_chars)
  moreover have "\<not> isspace (CHR ''0'')" by (simp add: isspace_def)
  moreover have "list_all (is_digit 8) (CHR ''0'' # ds)"
    using assms by (simp add: is_digit_chars)
  ultimately have "c_integer_value (CHR ''0'' # ds) = Some (digits_value 8 ds)"
    by (simp add: c_integer_value_def signed_value_def unsigned_value_def numeral_value_def
        digits_value_leading_zero)
  then show ?thesis
    using parse_address_c_syntax [of "CHR ''0'' # ds"] by simp
qed

theorem leading_zero_is_octal_witness:
  "list_all (is_digit 8) ''10'' \<and> parse_i2c_slave_address ''010'' = Inr 8 \<and>
   spec_address_value ''010'' = Some 10"
proof -
  have a: "list_all (is_digit 8) ''10''" by code_simp
  have v: "digits_value 8 ''10'' = 8" by code_simp
  have s: "spec_address_value ''010'' = Some 10" by code_simp
  from leading_zero_is_octal [OF a] v have "parse_i2c_slave_address ''010'' = Inr 8" by simp
  with a s show ?thesis by blast
qed

section \<open>Properties of option processing\<close>

lemma io_bind_assoc:
  "io_bind (io_bind m f) g = io_bind m (\<lambda>x. io_bind (f x) g)"
  by (cases m) (auto simp: io_bind_def split: sum.splits prod.splits)

lemma io_bind_return [simp]: "io_bind ([], Inr x) f = f x"
  by (simp add: io_bind_def split: prod.splits)

lemma io_bind_fail [simp]: "io_bind (ev, Inl e) f = (ev, Inl e)"
  by (simp add: io_bind_def)

lemma io_bind_ok: "io_bind (ev, Inr x) f = (ev @ fst (f x), snd (f x))"
  by (simp add: io_bind_def split: prod.splits)

lemma main_options_append:
  "main_options w st (xs @ ys) =
     io_bind (main_options w st xs) (\<lambda>st'. main_options w st' ys)"
  by (induction xs arbitrary: st) (simp_all add: io_bind_assoc)

text \<open>What the bus locator calls, and what it has called when it returns a descriptor.\<close>

lemma name_file_matches_calls:
  "\<not> list_ex device_io (fst (name_file_matches w dir subdir want)) \<and>
   \<not> list_ex opens_device (fst (name_file_matches w dir subdir want))"
  by (simp add: name_file_matches_def Let_def split: name_file.splits)

lemma open_i2c_dev_calls:
  "\<not> list_ex device_io (fst (open_i2c_dev w file)) \<and>
   (case snd (open_i2c_dev w file) of
      Inl e \<Rightarrow> e \<noteq> Both_b_and_d
    | Inr fd \<Rightarrow> list_ex opens_device (fst (open_i2c_dev w file)))"
  by (simp add: open_i2c_dev_def Let_def)

lemma io_bind_calls:
  "fst (io_bind m f) =
     (case snd m of Inl e \<Rightarrow> fst m | Inr x \<Rightarrow> fst m @ fst (f x))"
  by (cases m) (auto simp: io_bind_def split: sum.splits prod.splits)

lemma io_bind_result:
  "snd (io_bind m f) = (case snd m of Inl e \<Rightarrow> Inl e | Inr x \<Rightarrow> snd (f x))"
  by (cases m) (auto simp: io_bind_def split: sum.splits prod.splits)

lemma scan_entries_calls:
  "\<not> list_ex device_io (fst (scan_entries w name ds fails)) \<and>
   (case snd (scan_entries w name ds fails) of
      Inl e \<Rightarrow> e \<noteq> Both_b_and_d
    | Inr fd \<Rightarrow> list_ex opens_device (fst (scan_entries w name ds fails)))"
proof (induction ds)
  case Nil
  then show ?case by simp
next
  case (Cons d ds)
  show ?case
  proof (cases "case d of [] \<Rightarrow> False | c # _ \<Rightarrow> c = CHR ''.''")
    case True
    then show ?thesis
      using Cons by (simp add: io_bind_calls io_bind_result split: sum.splits)
  next
    case False
    obtain ev r where nf: "name_file_matches w i2c_dev_path d name = (ev, r)"
      by (cases "name_file_matches w i2c_dev_path d name")
    have ev: "\<not> list_ex device_io ev" "\<not> list_ex opens_device ev"
      using name_file_matches_calls [of w i2c_dev_path d name] nf by simp_all
    have r: "r \<noteq> Inl Both_b_and_d"
      using nf by (auto simp: name_file_matches_def Let_def split: name_file.splits if_splits)
    show ?thesis
    proof (cases r)
      case (Inl e)
      then show ?thesis
        using False nf ev r by (simp add: io_bind_calls io_bind_result)
    next
      case (Inr res)
      show ?thesis
      proof (cases res)
        case True
        then show ?thesis
          using False nf ev Inr open_i2c_dev_calls [of w d]
          by (simp add: io_bind_calls io_bind_result split: sum.splits)
      next
        case res: False
        then show ?thesis
          using False nf ev Inr Cons
          by (simp add: io_bind_calls io_bind_result split: sum.splits)
      qed
    qed
  qed
qed

lemma open_i2c_bus_calls:
  "\<not> list_ex device_io (fst (open_i2c_bus w name)) \<and>
   (case snd (open_i2c_bus w name) of
      Inl e \<Rightarrow> e \<noteq> Both_b_and_d
    | Inr fd \<Rightarrow> list_ex opens_device (fst (open_i2c_bus w name)))"
proof (cases "i2c_dev_dir w")
  case Opendir_fails
  then show ?thesis by (simp add: open_i2c_bus_def)
next
  case (Entries ds fails)
  then show ?thesis
    using scan_entries_calls [of w name ds fails]
    by (simp add: open_i2c_bus_def io_bind_calls io_bind_result split: sum.splits)
qed

text \<open>
  One option: no call binds, writes or reads; the conflict is reported only with a
  descriptor already set; a descriptor is set only by opening a device.
\<close>

lemma main_option_calls:
  "\<not> list_ex device_io (fst (main_option w st opt)) \<and>
   (case snd (main_option w st opt) of
      Inl e \<Rightarrow> e = Both_b_and_d \<longrightarrow> m_fd st \<noteq> 0
    | Inr st' \<Rightarrow> m_fd st' \<noteq> 0 \<longrightarrow> m_fd st \<noteq> 0 \<or> list_ex opens_device (fst (main_option w st opt)))"
proof -
  obtain c optarg where opt: "opt = (c, optarg)" by (cases opt)
  consider "c = CHR ''b''" | "c = CHR ''d''" | "c = CHR ''a''" | "c \<noteq> CHR ''b''" "c \<noteq> CHR ''d''" "c \<noteq> CHR ''a''"
    by blast
  then show ?thesis
  proof cases
    case 1
    then show ?thesis
      using open_i2c_bus_calls [of w optarg] opt
      by (auto simp: main_option_def io_bind_calls io_bind_result split: sum.splits)
  next
    case 2
    then show ?thesis
      using opt by (auto simp: main_option_def Let_def)
  next
    case 3
    then show ?thesis
      using opt
      by (auto simp: main_option_def Let_def parse_i2c_slave_address_def split: sum.splits prod.splits if_splits)
  next
    case 4
    then show ?thesis
      using opt by (auto simp: main_option_def Let_def)
  qed
qed

lemma main_options_calls:
  "\<not> list_ex device_io (fst (main_options w st opts)) \<and>
   (case snd (main_options w st opts) of
      Inl e \<Rightarrow> e = Both_b_and_d \<longrightarrow>
        m_fd st \<noteq> 0 \<or> list_ex opens_device (fst (main_options w st opts))
    | Inr st' \<Rightarrow> m_fd st' \<noteq> 0 \<longrightarrow>
        m_fd st \<noteq> 0 \<or> list_ex opens_device (fst (main_options w st opts)))"
proof (induction opts arbitrary: st)
  case Nil
  then show ?case by simp
next
  case (Cons opt opts)
  obtain ev r where mo: "main_option w st opt = (ev, r)" by (cases "main_option w st opt")
  note one = main_option_calls [of w st opt, unfolded mo fst_conv snd_conv]
  show ?case
  proof (cases r)
    case (Inl e)
    then show ?thesis using mo one by simp
  next
    case (Inr st')
    obtain ev' r' where ms: "main_options w st' opts = (ev', r')"
      by (cases "main_options w st' opts")
    note rest = Cons.IH [of st', unfolded ms fst_conv snd_conv]
    have "main_options w st (opt # opts) = (ev @ ev', r')"
      using mo Inr ms by (simp add: io_bind_def)
    then show ?thesis
      using one rest Inr by (auto split: sum.splits)
  qed
qed

text \<open>
  C9.  When the options before a \<^verbatim>\<open>-b\<close> or \<^verbatim>\<open>-d\<close> have been processed without an exit
  and have left a nonzero descriptor, the program reports the conflict (the message on
  standard error, the usage text, exit status 1) and makes no further call: the device of
  the second option is not opened.  Whenever the conflict is reported, a device node has
  been opened before, and no call has bound, written to or read from a device.
\<close>

theorem both_b_and_d_reported:
  "(main_options w main_init before = (ev, Inr st) \<and> m_fd st \<noteq> 0 \<and>
      (c = CHR ''b'' \<or> c = CHR ''d'') \<longrightarrow>
        main_setup w (before @ (c, optarg) # rest) left_over = (ev, Inl Both_b_and_d)) \<and>
   (main_setup w opts left_over = (calls, Inl Both_b_and_d) \<longrightarrow>
        list_ex opens_device calls \<and> \<not> list_ex device_io calls) \<and>
   exit_status Both_b_and_d = 1 \<and> prints_usage Both_b_and_d \<and> writes_stderr Both_b_and_d"
proof (intro conjI impI)
  assume a: "main_options w main_init before = (ev, Inr st) \<and> m_fd st \<noteq> 0 \<and>
      (c = CHR ''b'' \<or> c = CHR ''d'')"
  then have "main_option w st (c, optarg) = ([], Inl Both_b_and_d)"
    by (auto simp: main_option_def)
  then have "main_options w st ((c, optarg) # rest) = ([], Inl Both_b_and_d)"
    by simp
  then show "main_setup w (before @ (c, optarg) # rest) left_over = (ev, Inl Both_b_and_d)"
    using a by (simp add: main_setup_def main_options_append io_bind_def)
next
  assume a: "main_setup w opts left_over = (calls, Inl Both_b_and_d)"
  obtain ev r where mo: "main_options w main_init opts = (ev, r)"
    by (cases "main_options w main_init opts")
  note inv = main_options_calls [of w main_init opts, unfolded mo fst_conv snd_conv]
  have r: "r = Inl Both_b_and_d \<and> calls = ev"
    using a mo
    by (cases r) (auto simp: main_setup_def io_bind_def Let_def split: if_splits)
  then show "list_ex opens_device calls" "\<not> list_ex device_io calls"
    using inv by (simp_all add: main_init_def)
qed simp_all

text \<open>
  The conflict is not reported before any device node is opened: with \<^verbatim>\<open>-d /dev/i2c-1\<close>
  before \<^verbatim>\<open>-b bcm.1\<close> the device node has been opened when the conflict is found.  And
  not every command line with both options reaches the conflict: when the device of the
  first option does not open, the program ends there with the error of \<^verbatim>\<open>open\<close>.
\<close>

theorem device_opened_before_conflict:
  "main_setup
     \<lparr>asprintf_fails = False, name_files = (\<lambda>p. Open_fails),
      dev_nodes = (\<lambda>p. if p = ''/dev/i2c-1'' then 3 else - 1),
      i2c_dev_dir = Opendir_fails, ioctl_fails = False\<rparr>
     [(CHR ''d'', ''/dev/i2c-1''), (CHR ''b'', ''bcm.1'')] False =
     ([Ev_open ''/dev/i2c-1'' O_RDWR], Inl Both_b_and_d) \<and>
   list_ex opens_device [Ev_open ''/dev/i2c-1'' O_RDWR] \<and>
   main_setup
     \<lparr>asprintf_fails = False, name_files = (\<lambda>p. Open_fails),
      dev_nodes = (\<lambda>p. if p = ''/dev/i2c-1'' then 3 else - 1),
      i2c_dev_dir = Opendir_fails, ioctl_fails = False\<rparr>
     [(CHR ''d'', ''/dev/i2c-9''), (CHR ''b'', ''bcm.1'')] False =
     ([Ev_open ''/dev/i2c-9'' O_RDWR], Inl (Die_errno ''opening /dev/i2c-9''))"
  by (simp add: main_setup_def main_option_def main_init_def io_bind_def Let_def)

theorem both_b_and_d_reported_witness:
  "main_options
     \<lparr>asprintf_fails = False,
      name_files = (\<lambda>p. Contents (''bcm.1'' @ [CHR 0x0A])),
      dev_nodes = (\<lambda>p. 3), i2c_dev_dir = Entries [''.'', ''i2c-1''] False, ioctl_fails = False\<rparr>
     main_init [(CHR ''b'', ''bcm.1'')] =
     ([Ev_opendir ''/sys/class/i2c-dev'', Ev_readdir ''/sys/class/i2c-dev'',
       Ev_readdir ''/sys/class/i2c-dev'',
       Ev_open ''/sys/class/i2c-dev/i2c-1/name'' O_RDONLY,
       Ev_read_file ''/sys/class/i2c-dev/i2c-1/name'' 7,
       Ev_open ''/dev/i2c-1'' O_RDWR],
      Inr (main_init\<lparr>m_fd := 3\<rparr>)) \<and>
   main_setup
     \<lparr>asprintf_fails = False,
      name_files = (\<lambda>p. Contents (''bcm.1'' @ [CHR 0x0A])),
      dev_nodes = (\<lambda>p. 3), i2c_dev_dir = Entries [''.'', ''i2c-1''] False, ioctl_fails = False\<rparr>
     [(CHR ''b'', ''bcm.1''), (CHR ''d'', ''/dev/i2c-0'')] False =
     ([Ev_opendir ''/sys/class/i2c-dev'', Ev_readdir ''/sys/class/i2c-dev'',
       Ev_readdir ''/sys/class/i2c-dev'',
       Ev_open ''/sys/class/i2c-dev/i2c-1/name'' O_RDONLY,
       Ev_read_file ''/sys/class/i2c-dev/i2c-1/name'' 7,
       Ev_open ''/dev/i2c-1'' O_RDWR],
      Inl Both_b_and_d)"
proof -
  let ?w = "\<lparr>asprintf_fails = False,
      name_files = (\<lambda>p. Contents (''bcm.1'' @ [CHR 0x0A])),
      dev_nodes = (\<lambda>p. 3), i2c_dev_dir = Entries [''.'', ''i2c-1''] False, ioctl_fails = False\<rparr>"
  let ?ev = "[Ev_opendir ''/sys/class/i2c-dev'', Ev_readdir ''/sys/class/i2c-dev'',
       Ev_readdir ''/sys/class/i2c-dev'',
       Ev_open ''/sys/class/i2c-dev/i2c-1/name'' O_RDONLY,
       Ev_read_file ''/sys/class/i2c-dev/i2c-1/name'' 7,
       Ev_open ''/dev/i2c-1'' O_RDWR]"
  have m: "main_options ?w main_init [(CHR ''b'', ''bcm.1'')] = (?ev, Inr (main_init\<lparr>m_fd := 3\<rparr>))"
    by (simp add: main_option_def main_init_def open_i2c_bus_def io_bind_def i2c_dev_path_def
        name_file_matches_def open_i2c_dev_def Let_def)
  have f: "m_fd (main_init\<lparr>m_fd := 3\<rparr>) \<noteq> 0" by simp
  from both_b_and_d_reported [of ?w "[(CHR ''b'', ''bcm.1'')]" ?ev "main_init\<lparr>m_fd := 3\<rparr>"
      "CHR ''d''" "''/dev/i2c-0''" "[]" False] m f
  have "main_setup ?w [(CHR ''b'', ''bcm.1''), (CHR ''d'', ''/dev/i2c-0'')] False
      = (?ev, Inl Both_b_and_d)"
    by simp
  with m show ?thesis by blast
qed

end
